theory Spec2Isabelle
  imports Complex_Main "HOL-Library.Multiset"
begin

section \<open>Cards\<close>

text \<open>
  The source's \<^verbatim>\<open>number\<close> fields hold integers throughout (the catalog's costs
  and points, the counters of the state, the ids handed out by \<^verbatim>\<open>idCounter++\<close>);
  they are modelled as \<open>int\<close>, with the rounding of doubles written out where the
  reducer computes with them. A name of the source that is a constant of HOL carries a
  prime here: the habitat \<^verbatim>\<open>'log'\<close>, the fields \<^verbatim>\<open>power\<close> and
  \<^verbatim>\<open>id\<close> of a card, and further down \<^verbatim>\<open>card\<close> of the drag and
  \<^verbatim>\<open>top\<close> of a rectangle.
\<close>

datatype Habitat = forest | log' | soil

datatype Power = gainSpore | gainNutrient | drawCard

text \<open>\<^verbatim>\<open>Omit<Mushroom, 'id'>\<close>: a catalog template.\<close>

record BaseCard =
  name :: string
  habitat :: Habitat
  cost :: int
  points :: int
  power' :: "Power option"
  art :: string

text \<open>\<^verbatim>\<open>interface Mushroom\<close>: a template together with its id.\<close>

record Mushroom = BaseCard +
  id' :: int

definition BASE_CARDS :: "BaseCard list" where
  "BASE_CARDS =
    [\<lparr>name = ''Fly Agaric'', habitat = forest, cost = 2, points = 2,
      power' = Some gainSpore, art = ''images/mushrooms/agaric.jpg''\<rparr>,
     \<lparr>name = ''Shiitake'', habitat = log', cost = 1, points = 3,
      power' = Some gainNutrient, art = ''images/mushrooms/shiitake.jpg''\<rparr>,
     \<lparr>name = ''Lion's Mane'', habitat = forest, cost = 2, points = 4,
      power' = Some drawCard, art = ''images/mushrooms/lionsmane.jpg''\<rparr>,
     \<lparr>name = ''Morel'', habitat = soil, cost = 3, points = 3,
      power' = Some gainSpore, art = ''images/mushrooms/morel.jpg''\<rparr>,
     \<lparr>name = ''Oyster'', habitat = log', cost = 1, points = 2,
      power' = Some gainNutrient, art = ''images/mushrooms/oyster.jpg''\<rparr>,
     \<lparr>name = ''Reishi'', habitat = forest, cost = 4, points = 5,
      power' = Some gainNutrient, art = ''images/mushrooms/reishi.jpg''\<rparr>]"

section \<open>Deck construction\<close>

text \<open>
  \<^verbatim>\<open>createDeck\<close> reads and advances the module's \<^verbatim>\<open>idCounter\<close> and calls
  \<^verbatim>\<open>Math.random()\<close> once in each round of the shuffle. The counter is passed in and
  returned; \<open>rnd k\<close> is the value of call number \<open>k\<close> to \<^verbatim>\<open>Math.random()\<close>, a
  rational number as every double is, and by the contract of \<^verbatim>\<open>Math.random\<close> it
  lies in \<open>[0, 1)\<close>, which keeps the index \<open>j\<close> within \<open>0..i\<close>. The product is exact
  here. The source's product is that number rounded to a double, so for the same values
  of \<^verbatim>\<open>Math.random()\<close> the source can take a neighbouring index and build another
  deck; its index stays in \<open>0..i\<close> all the same, and what is proved below of the deck
  holds for each choice of indices in that range. The module sets \<^verbatim>\<open>idCounter\<close> to
  0 and calls \<^verbatim>\<open>createDeck\<close> once, so the 36 increments of the counter are exact.
\<close>

definition pushCard :: "Mushroom list \<times> int \<Rightarrow> BaseCard \<Rightarrow> Mushroom list \<times> int" where
  "pushCard st c =
     (case st of (deck, idCounter) \<Rightarrow>
        (deck @ [\<lparr>name = name c, habitat = habitat c, cost = cost c, points = points c,
                  power' = power' c, art = art c, id' = idCounter\<rparr>],
         idCounter + 1))"

function buildLoop :: "nat \<Rightarrow> Mushroom list \<times> int \<Rightarrow> Mushroom list \<times> int" where
  "buildLoop i st = (if i < 6 then buildLoop (i + 1) (foldl pushCard st BASE_CARDS) else st)"
  by pat_completeness auto
termination
  by (relation "measure (\<lambda>(i, st). 6 - i)") auto

declare buildLoop.simps [simp del]

function shuffleLoop :: "(nat \<Rightarrow> rat) \<Rightarrow> nat \<Rightarrow> nat \<Rightarrow> Mushroom list \<Rightarrow> Mushroom list" where
  "shuffleLoop rnd k i deck =
     (if i > 0
      then (let j = nat \<lfloor>rnd k * of_nat (i + 1)\<rfloor>
            in shuffleLoop rnd (k + 1) (i - 1) (deck[i := deck ! j, j := deck ! i]))
      else deck)"
  by pat_completeness auto
termination
  by (relation "measure (\<lambda>(rnd, k, i, deck). i)") auto

declare shuffleLoop.simps [simp del]

definition createDeck :: "(nat \<Rightarrow> rat) \<Rightarrow> int \<Rightarrow> Mushroom list \<times> int" where
  "createDeck rnd idCounter =
     (case buildLoop 0 ([], idCounter) of (deck, idCounter) \<Rightarrow>
        (shuffleLoop rnd 0 (length deck - 1) deck, idCounter))"

section \<open>Numbers\<close>

text \<open>
  The counters of the game are JavaScript numbers, doubles, holding integers. The sum or
  difference of two of them is the exact integer result rounded to the nearest double,
  with a tie going to the double of even significand. \<open>quantum a\<close> is the distance
  between neighbouring doubles at magnitude \<open>a\<close>: 1 below \<open>2 ^ 53\<close>, and doubling with
  each further binary digit. \<open>dbl n\<close> is the double nearest to the integer \<open>n\<close>;
  \<open>safe n\<close> says that \<open>n\<close> lies where every integer is a double. The exponent range is
  not modelled: from magnitude \<open>2 ^ 1024\<close> on the source yields \<^verbatim>\<open>Infinity\<close>, far
  from any number a game reaches.
\<close>

function quantum :: "int \<Rightarrow> int" where
  "quantum a = (if a < 2 ^ 53 then 1 else 2 * quantum (a div 2))"
  by pat_completeness auto
termination
  by (relation "measure nat") simp_all

declare quantum.simps [simp del]

definition dbl :: "int \<Rightarrow> int" where
  "dbl n =
     (let a = \<bar>n\<bar>; q = quantum a; m = a div q; r = a mod q
      in sgn n * ((if q < 2 * r \<or> (q = 2 * r \<and> odd m) then m + 1 else m) * q))"

definition safe :: "int \<Rightarrow> bool" where
  "safe n = (\<bar>n\<bar> \<le> 2 ^ 53)"

section \<open>Game logic\<close>

text \<open>
  \<^verbatim>\<open>Record<Habitat, Mushroom[]>\<close> has exactly the three keys of \<open>Habitat\<close>, so
  the board is a total function from habitats to the cards played there.
\<close>

record State =
  deck :: "Mushroom list"
  hand :: "Mushroom list"
  habitats :: "Habitat \<Rightarrow> Mushroom list"
  nutrients :: int
  spores :: int
  score :: int

datatype Action = DRAW | PLAY int Habitat | ACTIVATE Habitat

text \<open>
  The reducer, branch by branch. \<^verbatim>\<open>state.deck[0]\<close> and \<^verbatim>\<open>state.deck.slice(1)\<close>
  are read only behind the emptiness test, where they are \<open>hd\<close> and \<open>tl\<close>.
  \<^verbatim>\<open>Array.prototype.find\<close> is \<open>find\<close>: the first element satisfying the test, or
  nothing. The play of a \<^verbatim>\<open>drawCard\<close> card calls the reducer again with
  \<^verbatim>\<open>DRAW\<close>; that call is the only recursion. The \<^verbatim>\<open>default\<close> branch of
  the \<^verbatim>\<open>switch\<close> has no action of type \<^verbatim>\<open>Action\<close> to serve. Every
  \<^verbatim>\<open>+\<close> and \<^verbatim>\<open>-\<close> on counters is the exact result under \<open>dbl\<close>; the
  comparisons are exact on doubles.
\<close>

function reducer :: "State \<Rightarrow> Action \<Rightarrow> State" where
  "reducer state DRAW =
     (if deck state = [] then state
      else state\<lparr>hand := hand state @ [hd (deck state)], deck := tl (deck state)\<rparr>)"
| "reducer state (PLAY cardId hab) =
     (case find (\<lambda>c. id' c = cardId) (hand state) of
        None \<Rightarrow> state
      | Some found \<Rightarrow>
          if habitat found \<noteq> hab \<or> nutrients state < cost found
             \<or> length (habitats state hab) \<ge> 5
          then state
          else
            (let newState = state\<lparr>
                   nutrients := dbl (nutrients state - cost found),
                   hand := filter (\<lambda>c. id' c \<noteq> cardId) (hand state),
                   habitats := (habitats state)(hab := habitats state hab @ [found]),
                   score := dbl (score state + points found)\<rparr>;
                 newState = (if power' found = Some gainSpore
                             then newState\<lparr>spores := dbl (spores newState + 1)\<rparr>
                             else newState);
                 newState = (if power' found = Some gainNutrient
                             then newState\<lparr>nutrients := dbl (nutrients newState + 1)\<rparr>
                             else newState)
             in if power' found = Some drawCard then reducer newState DRAW else newState))"
| "reducer state (ACTIVATE payload) =
     state\<lparr>nutrients := dbl (nutrients state + int (length (habitats state payload)))\<rparr>"
  by pat_completeness auto
termination
  by (relation "measure (\<lambda>(s, a). case a of PLAY _ _ \<Rightarrow> Suc 0 | _ \<Rightarrow> 0)") auto

text \<open>
  \<^verbatim>\<open>useReducer\<close> feeds the dispatched actions to the reducer one after the other,
  each on the state the one before returned.
\<close>

definition replay :: "State \<Rightarrow> Action list \<Rightarrow> State" where
  "replay state actions = foldl reducer state actions"

text \<open>
  The play of a card with its power left pending, in the words of the specification:
  remove the card from the hand (by id), append it to the target habitat, subtract its
  cost from the nutrients, add its points to the score.
\<close>

definition play_pending :: "State \<Rightarrow> Mushroom \<Rightarrow> Habitat \<Rightarrow> State" where
  "play_pending s c h =
     s\<lparr>hand := filter (\<lambda>m. id' m \<noteq> id' c) (hand s),
       habitats := (habitats s)(h := habitats s h @ [c]),
       nutrients := dbl (nutrients s - cost c),
       score := dbl (score s + points c)\<rparr>"

text \<open>Every card of a state: deck, hand and the three habitats.\<close>

definition cards_of :: "State \<Rightarrow> Mushroom list" where
  "cards_of s = deck s @ hand s @ habitats s forest @ habitats s log' @ habitats s soil"

section \<open>The initial state\<close>

definition initialState :: "(nat \<Rightarrow> rat) \<Rightarrow> int \<Rightarrow> State" where
  "initialState rnd idCounter =
     \<lparr>deck = fst (createDeck rnd idCounter), hand = [],
      habitats = (\<lambda>h. []), nutrients = 8, spores = 0, score = 0\<rparr>"

section \<open>Drag and drop\<close>

text \<open>
  The part of the component's state the pointer handlers touch: the \<^verbatim>\<open>dragging\<close>
  ref, the \<^verbatim>\<open>dragTick\<close> counter and \<^verbatim>\<open>draggingHab\<close>. A handler returns
  the new tracker with the effects it caused, in order: the actions it dispatched and the
  sounds it played. \<^verbatim>\<open>habitatRefs.current[hab]\<close> is \<open>None\<close> where the element is
  \<^verbatim>\<open>null\<close> and otherwise the rectangle \<^verbatim>\<open>getBoundingClientRect()\<close> returns.
  Coordinates are only compared; they are real numbers here.
\<close>

record DOMRect =
  left :: real
  right :: real
  top' :: real
  bottom :: real

record Dragging =
  card' :: "Mushroom option"
  x :: real
  y :: real

record Tracker =
  dragging :: Dragging
  dragTick :: nat
  draggingHab :: "Habitat option"

datatype Sound = click | play | draw

datatype Effect = dispatch Action | playSound Sound

definition startDrag :: "real \<times> real \<Rightarrow> Mushroom \<Rightarrow> Tracker \<Rightarrow> Effect list \<times> Tracker" where
  "startDrag e c t =
     ([playSound click],
      t\<lparr>dragging := \<lparr>card' = Some c, x = fst e, y = snd e\<rparr>,
        dragTick := dragTick t + 1,
        draggingHab := Some (habitat c)\<rparr>)"

definition onMouseMove :: "real \<times> real \<Rightarrow> Tracker \<Rightarrow> Effect list \<times> Tracker" where
  "onMouseMove e t =
     (if card' (dragging t) \<noteq> None
      then ([], t\<lparr>dragging := (dragging t)\<lparr>x := fst e, y := snd e\<rparr>, dragTick := dragTick t + 1\<rparr>)
      else ([], t))"

text \<open>
  The \<^verbatim>\<open>for ... of\<close> loop of \<^verbatim>\<open>onMouseUp\<close> over the habitats still to test; the
  result carries the \<^verbatim>\<open>played\<close> flag, and the \<^verbatim>\<open>break\<close> is the branch that does
  not recurse.
\<close>

fun dropLoop ::
  "(Habitat \<Rightarrow> DOMRect option) \<Rightarrow> Dragging \<Rightarrow> Mushroom \<Rightarrow> Habitat list \<Rightarrow> Effect list \<times> bool" where
  "dropLoop habitatRefs d c [] = ([], False)"
| "dropLoop habitatRefs d c (hab # rest) =
     (case habitatRefs hab of
        None \<Rightarrow> dropLoop habitatRefs d c rest
      | Some r \<Rightarrow>
          if x d > left r \<and> x d < right r \<and> y d > top' r \<and> y d < bottom r
          then ([dispatch (PLAY (id' c) hab), playSound play], True)
          else dropLoop habitatRefs d c rest)"

definition onMouseUp :: "(Habitat \<Rightarrow> DOMRect option) \<Rightarrow> Tracker \<Rightarrow> Effect list \<times> Tracker" where
  "onMouseUp habitatRefs t =
     (case card' (dragging t) of
        None \<Rightarrow> ([], t)
      | Some c \<Rightarrow>
          (case dropLoop habitatRefs (dragging t) c [forest, log', soil] of (effects, played) \<Rightarrow>
             (if \<not> played then effects @ [playSound click] else effects,
              t\<lparr>dragging := (dragging t)\<lparr>card' := None\<rparr>,
                dragTick := dragTick t + 1,
                draggingHab := None\<rparr>)))"

text \<open>The actions among the effects of a handler, in the order of their dispatch.\<close>

fun dispatched :: "Effect list \<Rightarrow> Action list" where
  "dispatched [] = []"
| "dispatched (dispatch a # es) = a # dispatched es"
| "dispatched (playSound sound # es) = dispatched es"

section \<open>Example states\<close>

text \<open>
  Cards of the catalog, the state of a new game whose shuffled deck starts with three of
  them, and a tracker with two overlapping drop zones (the soil element not mounted).
\<close>

definition cardX :: Mushroom where
  "cardX = \<lparr>name = ''Fly Agaric'', habitat = forest, cost = 2, points = 2,
             power' = Some gainSpore, art = ''images/mushrooms/agaric.jpg'', id' = 0\<rparr>"

definition shiitake :: "int \<Rightarrow> Mushroom" where
  "shiitake n = \<lparr>name = ''Shiitake'', habitat = log', cost = 1, points = 3,
                  power' = Some gainNutrient, art = ''images/mushrooms/shiitake.jpg'', id' = n\<rparr>"

definition lionsMane :: "int \<Rightarrow> Mushroom" where
  "lionsMane n = \<lparr>name = ''Lion's Mane'', habitat = forest, cost = 2, points = 4,
                   power' = Some drawCard, art = ''images/mushrooms/lionsmane.jpg'', id' = n\<rparr>"

definition newGameX :: State where
  "newGameX = \<lparr>deck = [cardX, shiitake 1, lionsMane 2], hand = [],
                habitats = (\<lambda>h. []), nutrients = 8, spores = 0, score = 0\<rparr>"

text \<open>
  A game as the program plays it: the deck of the shuffle in which every call of
  \<^verbatim>\<open>Math.random()\<close> returns one half (a product by one half is exact in doubles,
  so this deck is the source's), the five draws the component dispatches when it mounts,
  and what follows from there: the whole deck drawn; one or two cards played into the
  forest, and then the forest activated over and over.
\<close>

definition shuffledGame :: State where
  "shuffledGame = initialState (\<lambda>k. 1 / 2) 0"

definition dealt :: State where
  "dealt = replay shuffledGame [DRAW, DRAW, DRAW, DRAW, DRAW]"

definition drawnOut :: State where
  "drawnOut = replay dealt (replicate 31 DRAW)"

definition forestOne :: State where
  "forestOne = replay dealt [PLAY 0 forest]"


definition richGame :: State where
  "richGame = replay forestOne (replicate (2 ^ 53 - 6) (ACTIVATE forest))"


definition idleTracker :: Tracker where
  "idleTracker = \<lparr>dragging = \<lparr>card' = None, x = 0, y = 0\<rparr>, dragTick = 0, draggingHab = None\<rparr>"

definition zones :: "Habitat \<Rightarrow> DOMRect option" where
  "zones h = (case h of
      forest \<Rightarrow> Some \<lparr>left = 0, right = 100, top' = 0, bottom = 100\<rparr>
    | log' \<Rightarrow> Some \<lparr>left = 50, right = 200, top' = 0, bottom = 100\<rparr>
    | soil \<Rightarrow> None)"

section \<open>Rounding\<close>

text \<open>
  Up to magnitude \<open>2 ^ 53\<close> every integer is a double, so a result in that range is
  exact; and no rounding takes a number that is not negative below zero.
\<close>

lemma quantum_small: "a < 2 ^ 53 \<Longrightarrow> quantum a = 1"
  by (subst quantum.simps) simp

lemma quantum_2_53: "quantum 9007199254740992 = 2"
  by code_simp

lemma quantum_pos: "0 < quantum a"
  by (induction a rule: quantum.induct) (subst quantum.simps, simp)

lemma dbl_exact: "safe n \<Longrightarrow> dbl n = n"
proof -
  assume "safe n"
  then consider "\<bar>n\<bar> < 2 ^ 53" | "\<bar>n\<bar> = 2 ^ 53"
    unfolding safe_def by linarith
  then show ?thesis
  proof cases
    case 1
    then show ?thesis
      by (simp add: dbl_def quantum_small Let_def mult_sgn_abs)
  next
    case 2
    then have "n = 2 ^ 53 \<or> n = - (2 ^ 53)"
      by linarith
    then show ?thesis
      by (auto simp: dbl_def quantum_2_53 Let_def)
  qed
qed

lemma dbl_nonneg: "0 \<le> n \<Longrightarrow> 0 \<le> dbl n"
proof -
  assume n: "0 \<le> n"
  let ?q = "quantum \<bar>n\<bar>"
  have q: "0 < ?q" by (rule quantum_pos)
  have "0 \<le> \<bar>n\<bar> div ?q"
    using q by (simp add: pos_imp_zdiv_nonneg_iff)
  with q n show ?thesis
    by (simp add: dbl_def Let_def sgn_if)
qed

lemma dbl_tie: "dbl (2 ^ 53 + 1) = 2 ^ 53"
  by code_simp


section \<open>The reducer, action by action\<close>

text \<open>
  C5. A draw from a non-empty deck moves the front card of the deck to the end of the
  hand and changes nothing else: the deck loses its first card, the hand gains one card,
  and the board, nutrients, spores and score stay as they were. A draw from an empty deck
  returns the state itself; there is no error value in the reducer's result type.
\<close>

theorem draw_moves_front_card:
  "(deck s \<noteq> [] \<longrightarrow>
      reducer s DRAW = s\<lparr>hand := hand s @ [hd (deck s)], deck := tl (deck s)\<rparr>
      \<and> hd (deck s) # deck (reducer s DRAW) = deck s
      \<and> length (deck (reducer s DRAW)) + 1 = length (deck s)
      \<and> length (hand (reducer s DRAW)) = length (hand s) + 1
      \<and> habitats (reducer s DRAW) = habitats s
      \<and> nutrients (reducer s DRAW) = nutrients s
      \<and> spores (reducer s DRAW) = spores s
      \<and> score (reducer s DRAW) = score s)
   \<and> (deck s = [] \<longrightarrow> reducer s DRAW = s)"
  by simp

theorem draw_moves_front_card_witness:
  "deck newGameX \<noteq> []
   \<and> reducer newGameX DRAW = newGameX\<lparr>hand := [cardX], deck := [shiitake 1, lionsMane 2]\<rparr>
   \<and> deck (newGameX\<lparr>deck := []\<rparr>) = []
   \<and> reducer (newGameX\<lparr>deck := []\<rparr>) DRAW = newGameX\<lparr>deck := []\<rparr>"
proof -
  have full: "deck newGameX \<noteq> []" and empty: "deck (newGameX\<lparr>deck := []\<rparr>) = []"
    by (simp_all add: newGameX_def)
  from full draw_moves_front_card [of newGameX]
  have "reducer newGameX DRAW
          = newGameX\<lparr>hand := hand newGameX @ [hd (deck newGameX)], deck := tl (deck newGameX)\<rparr>"
    by blast
  moreover from empty draw_moves_front_card [of "newGameX\<lparr>deck := []\<rparr>"]
  have "reducer (newGameX\<lparr>deck := []\<rparr>) DRAW = newGameX\<lparr>deck := []\<rparr>"
    by blast
  ultimately show ?thesis
    by (simp add: newGameX_def)
qed

text \<open>
  C1. A play is rejected, and the state comes back as it was in every field, when no
  card of the hand has the given id, or the card found for the id belongs to another
  habitat than the one asked for, or the nutrients are less than its cost, or the target
  habitat already holds 5 cards or more.
\<close>

theorem play_rejected_unchanged:
  assumes "cardId \<notin> id' ` set (hand s)
     \<or> (\<exists>found. find (\<lambda>c. id' c = cardId) (hand s) = Some found
           \<and> (habitat found \<noteq> h \<or> nutrients s < cost found))
     \<or> length (habitats s h) \<ge> 5"
  shows "reducer s (PLAY cardId h) = s"
proof (cases "find (\<lambda>c. id' c = cardId) (hand s)")
  case None
  then show ?thesis by simp
next
  case (Some found)
  then have "cardId \<in> id' ` set (hand s)"
    by (auto simp: find_Some_iff)
  with assms Some
  have "habitat found \<noteq> h \<or> nutrients s < cost found \<or> length (habitats s h) \<ge> 5"
    by auto
  with Some show ?thesis by auto
qed

text \<open>Scenario B: one nutrient, a card of cost 2 in hand.\<close>

theorem play_rejected_unchanged_witness:
  "find (\<lambda>c. id' c = 0) (hand (newGameX\<lparr>hand := [cardX], nutrients := 1\<rparr>)) = Some cardX
   \<and> nutrients (newGameX\<lparr>hand := [cardX], nutrients := 1\<rparr>) < cost cardX
   \<and> reducer (newGameX\<lparr>hand := [cardX], nutrients := 1\<rparr>) (PLAY 0 forest)
       = newGameX\<lparr>hand := [cardX], nutrients := 1\<rparr>"
proof -
  have found: "find (\<lambda>c. id' c = 0) (hand (newGameX\<lparr>hand := [cardX], nutrients := 1\<rparr>)) = Some cardX"
    and poor: "nutrients (newGameX\<lparr>hand := [cardX], nutrients := 1\<rparr>) < cost cardX"
    by (simp_all add: cardX_def)
  then show ?thesis
    using play_rejected_unchanged [of 0 "newGameX\<lparr>hand := [cardX], nutrients := 1\<rparr>" forest]
    by blast
qed

section \<open>Activation\<close>

text \<open>
  A replay of a list of actions splits where the list does, and a replay of one action
  \<open>n\<close> times is the \<open>n\<close>-fold step. Activations of a habitat add its card count each
  time, exactly, from a number in the exact range up to a total in the exact range.
\<close>

lemma replay_append: "replay s (as @ bs) = replay (replay s as) bs"
  by (simp add: replay_def)

lemma replay_replicate: "replay s (replicate n a) = ((\<lambda>t. reducer t a) ^^ n) s"
proof (induction n arbitrary: s)
  case 0
  show ?case by (simp add: replay_def)
next
  case (Suc n)
  have "replay s (replicate (Suc n) a) = replay (reducer s a) (replicate n a)"
    by (simp add: replay_def)
  also have "\<dots> = ((\<lambda>t. reducer t a) ^^ n) (reducer s a)"
    by (rule Suc)
  also have "\<dots> = ((\<lambda>t. reducer t a) ^^ Suc n) s"
    by (simp only: funpow_Suc_right comp_apply)
  finally show ?case .
qed

lemma activate_repeated:
  assumes "safe (nutrients s)"
    and "safe (nutrients s + int n * int (length (habitats s h)))"
  shows "((\<lambda>t. reducer t (ACTIVATE h)) ^^ n) s
           = s\<lparr>nutrients := nutrients s + int n * int (length (habitats s h))\<rparr>"
  using assms(2)
proof (induction n)
  case 0
  show ?case by simp
next
  case (Suc n)
  let ?len = "int (length (habitats s h))"
  have "nutrients s \<le> nutrients s + int n * ?len"
    and "nutrients s + int n * ?len \<le> nutrients s + int (Suc n) * ?len"
    by (simp_all add: algebra_simps)
  with assms(1) Suc.prems have "safe (nutrients s + int n * ?len)"
    unfolding safe_def by linarith
  then have before: "((\<lambda>t. reducer t (ACTIVATE h)) ^^ n) s
           = s\<lparr>nutrients := nutrients s + int n * ?len\<rparr>"
    by (rule Suc.IH)
  have sum: "nutrients s + int n * ?len + ?len = nutrients s + int (Suc n) * ?len"
    by (simp add: algebra_simps)
  have "((\<lambda>t. reducer t (ACTIVATE h)) ^^ Suc n) s
          = reducer (((\<lambda>t. reducer t (ACTIVATE h)) ^^ n) s) (ACTIVATE h)"
    by (simp only: funpow.simps comp_apply)
  also have "\<dots> = reducer (s\<lparr>nutrients := nutrients s + int n * ?len\<rparr>) (ACTIVATE h)"
    by (simp only: before)
  also have "\<dots> = s\<lparr>nutrients := dbl (nutrients s + int n * ?len + ?len)\<rparr>"
    by simp
  also have "\<dots> = s\<lparr>nutrients := nutrients s + int (Suc n) * ?len\<rparr>"
    using Suc.prems by (simp only: sum dbl_exact)
  finally show ?case .
qed

text \<open>
  C6. Activating a habitat has no precondition: it sets the nutrients to the sum of the
  nutrients and the number of cards played in that habitat, as a double, and leaves deck,
  hand, board, spores and score as they were, so that on an empty habitat the state does
  not change. The gain is exactly that number where the sum lies within magnitude
  \<open>2 ^ 53\<close>; the board being unchanged, \<open>n\<close> activations in a row add \<open>n\<close> times that
  number, for every \<open>n\<close> whose total lies in that range.
\<close>

theorem activate_gain:
  "reducer s (ACTIVATE h) = s\<lparr>nutrients := dbl (nutrients s + int (length (habitats s h)))\<rparr>
   \<and> (safe (nutrients s + int (length (habitats s h))) \<longrightarrow>
        reducer s (ACTIVATE h) = s\<lparr>nutrients := nutrients s + int (length (habitats s h))\<rparr>)
   \<and> (dbl (nutrients s) = nutrients s \<and> habitats s h = [] \<longrightarrow> reducer s (ACTIVATE h) = s)
   \<and> (safe (nutrients s) \<and> safe (nutrients s + int n * int (length (habitats s h))) \<longrightarrow>
        ((\<lambda>t. reducer t (ACTIVATE h)) ^^ n) s
          = s\<lparr>nutrients := nutrients s + int n * int (length (habitats s h))\<rparr>)"
proof -
  have one: "reducer s (ACTIVATE h)
               = s\<lparr>nutrients := dbl (nutrients s + int (length (habitats s h)))\<rparr>"
    by simp
  have exact: "reducer s (ACTIVATE h)
                 = s\<lparr>nutrients := nutrients s + int (length (habitats s h))\<rparr>"
    if "safe (nutrients s + int (length (habitats s h)))"
    using that by (simp add: dbl_exact)
  have none: "reducer s (ACTIVATE h) = s" if "dbl (nutrients s) = nutrients s" "habitats s h = []"
    using that by simp
  from one exact none activate_repeated [of s n h] show ?thesis
    by blast
qed

theorem activate_gain_witness:
  "safe (nutrients (newGameX\<lparr>habitats := (\<lambda>h. [])(forest := [cardX, lionsMane 2])\<rparr>))
   \<and> safe (nutrients (newGameX\<lparr>habitats := (\<lambda>h. [])(forest := [cardX, lionsMane 2])\<rparr>)
           + int 3 * int (length (habitats
               (newGameX\<lparr>habitats := (\<lambda>h. [])(forest := [cardX, lionsMane 2])\<rparr>) forest)))
   \<and> ((\<lambda>t. reducer t (ACTIVATE forest)) ^^ 3)
         (newGameX\<lparr>habitats := (\<lambda>h. [])(forest := [cardX, lionsMane 2])\<rparr>)
       = newGameX\<lparr>habitats := (\<lambda>h. [])(forest := [cardX, lionsMane 2]), nutrients := 14\<rparr>
   \<and> habitats (newGameX\<lparr>habitats := (\<lambda>h. [])(forest := [cardX, lionsMane 2])\<rparr>) soil = []
   \<and> reducer (newGameX\<lparr>habitats := (\<lambda>h. [])(forest := [cardX, lionsMane 2])\<rparr>) (ACTIVATE soil)
       = newGameX\<lparr>habitats := (\<lambda>h. [])(forest := [cardX, lionsMane 2])\<rparr>"
proof -
  let ?g = "newGameX\<lparr>habitats := (\<lambda>h. [])(forest := [cardX, lionsMane 2])\<rparr>"
  have small: "safe (nutrients ?g)"
    "safe (nutrients ?g + int 3 * int (length (habitats ?g forest)))"
    and bare: "habitats ?g soil = []"
    by (simp_all add: newGameX_def safe_def)
  from activate_gain [of ?g forest 3] small
  have "((\<lambda>t. reducer t (ACTIVATE forest)) ^^ 3) ?g
          = ?g\<lparr>nutrients := nutrients ?g + int 3 * int (length (habitats ?g forest))\<rparr>"
    by blast
  then have thrice: "((\<lambda>t. reducer t (ACTIVATE forest)) ^^ 3) ?g = ?g\<lparr>nutrients := 14\<rparr>"
    by (simp add: newGameX_def)
  from small(1) have "dbl (nutrients ?g) = nutrients ?g"
    by (rule dbl_exact)
  with activate_gain [of ?g soil 0] bare
  have "reducer ?g (ACTIVATE soil) = ?g"
    by blast
  with small bare thrice show ?thesis
    by simp
qed

text \<open>
  Beyond that range the gain is not the number of cards. One card played into the
  forest and the forest activated \<open>2 ^ 53 - 6\<close> times, the game holds \<open>2 ^ 53\<close>
  nutrients; the next activation of the one-card forest adds nothing.
\<close>

lemma richGame_nutrients:
  "richGame = forestOne\<lparr>nutrients := 2 ^ 53\<rparr>"
proof -
  have start: "nutrients forestOne = 6" "length (habitats forestOne forest) = 1"
    by code_simp+
  have "safe (nutrients forestOne)"
    and "safe (nutrients forestOne + int (2 ^ 53 - 6) * int (length (habitats forestOne forest)))"
    by (simp_all add: start safe_def)
  then have "((\<lambda>t. reducer t (ACTIVATE forest)) ^^ (2 ^ 53 - 6)) forestOne
      = forestOne\<lparr>nutrients := nutrients forestOne
            + int (2 ^ 53 - 6) * int (length (habitats forestOne forest))\<rparr>"
    by (rule activate_repeated)
  then show ?thesis
    by (simp add: richGame_def replay_replicate start)
qed

theorem activate_gain_counterexample:
  "length (habitats richGame forest) = 1
   \<and> nutrients richGame = 2 ^ 53
   \<and> nutrients (reducer richGame (ACTIVATE forest)) = 2 ^ 53"
proof -
  have "length (habitats forestOne forest) = 1"
    by code_simp
  then show ?thesis
    using dbl_tie by (simp add: richGame_nutrients)
qed

section \<open>Plays\<close>






section \<open>Reachable states\<close>

text \<open>
  The bounds are kept by every action from any state that has them: a play is let
  through only when the nutrients cover the cost and the habitat holds fewer than 5
  cards, and nothing else lowers a counter or adds to a habitat.
\<close>

lemma reducer_keeps_bounds:
  assumes "0 \<le> nutrients s" and "0 \<le> spores s" and "\<And>h. length (habitats s h) \<le> 5"
  shows "0 \<le> nutrients (reducer s a) \<and> 0 \<le> spores (reducer s a)
         \<and> (\<forall>h. length (habitats (reducer s a) h) \<le> 5)"
proof (cases a)
  case DRAW
  with assms show ?thesis by simp
next
  case (PLAY cardId hab)
  with assms show ?thesis
    by (auto simp: Let_def dbl_nonneg split: option.splits)
next
  case (ACTIVATE hab)
  with assms show ?thesis by (simp add: dbl_nonneg)
qed

lemma replay_keeps_bounds:
  assumes "0 \<le> nutrients s" and "0 \<le> spores s" and "\<And>h. length (habitats s h) \<le> 5"
  shows "0 \<le> nutrients (replay s actions) \<and> 0 \<le> spores (replay s actions)
         \<and> (\<forall>h. length (habitats (replay s actions) h) \<le> 5)"
  using assms
proof (induction actions arbitrary: s)
  case Nil
  then show ?case by (simp add: replay_def)
next
  case (Cons a actions)
  have step: "0 \<le> nutrients (reducer s a) \<and> 0 \<le> spores (reducer s a)
         \<and> (\<forall>h. length (habitats (reducer s a) h) \<le> 5)"
    using Cons.prems by (rule reducer_keeps_bounds)
  have "replay s (a # actions) = replay (reducer s a) actions"
    by (simp add: replay_def)
  with Cons.IH [of "reducer s a"] step show ?case by simp
qed

text \<open>
  C2. In every state that a finite sequence of Draw, Play and Activate actions reaches
  from the initial state, whatever the shuffle was, nutrients and spores are not negative
  and each of the three habitats holds at most 5 cards.
\<close>

theorem reachable_resources_bounded:
  "0 \<le> nutrients (replay (initialState rnd idCounter) actions)
   \<and> 0 \<le> spores (replay (initialState rnd idCounter) actions)
   \<and> length (habitats (replay (initialState rnd idCounter) actions) forest) \<le> 5
   \<and> length (habitats (replay (initialState rnd idCounter) actions) log') \<le> 5
   \<and> length (habitats (replay (initialState rnd idCounter) actions) soil) \<le> 5"
proof -
  have "0 \<le> nutrients (initialState rnd idCounter)" "0 \<le> spores (initialState rnd idCounter)"
    "\<And>h. length (habitats (initialState rnd idCounter) h) \<le> 5"
    by (simp_all add: initialState_def)
  from replay_keeps_bounds [OF this] show ?thesis by blast
qed

section \<open>The deck\<close>

text \<open>
  An index drawn from a value of \<^verbatim>\<open>Math.random()\<close> lies in \<open>0..i\<close>, so each round
  of the shuffle swaps two cards of the deck and the shuffled deck is a permutation of the
  built one.
\<close>

lemma random_index_in_range:
  fixes r :: rat
  assumes "0 \<le> r" and "r < 1"
  shows "nat \<lfloor>r * of_nat (i + 1)\<rfloor> \<le> i"
proof -
  have pos: "(0::rat) < of_nat (i + 1)"
    by simp
  have eq: "(of_int (int i + 1) :: rat) = 1 * of_nat (i + 1)"
    by simp
  from \<open>r < 1\<close> pos have "r * of_nat (i + 1) < 1 * of_nat (i + 1)"
    by (rule mult_strict_right_mono)
  then have "r * of_nat (i + 1) < of_int (int i + 1)"
    unfolding eq .
  then have "\<lfloor>r * of_nat (i + 1)\<rfloor> < int i + 1"
    by (simp only: floor_less_iff)
  then show ?thesis by linarith
qed

lemma shuffleLoop_mset:
  "(\<forall>k. 0 \<le> rnd k \<and> rnd k < 1) \<Longrightarrow> i < length cards \<Longrightarrow>
   mset (shuffleLoop rnd k i cards) = mset cards"
proof (induction rnd k i cards rule: shuffleLoop.induct)
  case (1 rnd k i cards)
  show ?case
  proof (cases "i > 0")
    case False
    then show ?thesis by (simp add: shuffleLoop.simps)
  next
    case True
    define j where "j = nat \<lfloor>rnd k * of_nat (i + 1)\<rfloor>"
    have "j \<le> i"
      unfolding j_def using "1.prems"(1) by (intro random_index_in_range) simp_all
    with "1.prems"(2) have "j < length cards"
      by simp
    with "1.prems"(2) have swap: "mset (cards[i := cards ! j, j := cards ! i]) = mset cards"
      by (simp add: mset_swap)
    have "i - 1 < length (cards[i := cards ! j, j := cards ! i])"
      using "1.prems"(2) by simp
    with "1.IH" [OF True j_def "1.prems"(1)]
    have "mset (shuffleLoop rnd (k + 1) (i - 1) (cards[i := cards ! j, j := cards ! i]))
            = mset (cards[i := cards ! j, j := cards ! i])"
      by simp
    moreover have "shuffleLoop rnd k i cards
            = shuffleLoop rnd (k + 1) (i - 1) (cards[i := cards ! j, j := cards ! i])"
      using True by (subst shuffleLoop.simps) (simp add: j_def Let_def)
    ultimately show ?thesis
      using swap by simp
  qed
qed

lemma foldl_pushCard_templates:
  "map BaseCard.truncate (fst (foldl pushCard st cs)) = map BaseCard.truncate (fst st) @ cs"
  by (induction cs arbitrary: st)
     (auto simp: pushCard_def BaseCard.truncate_def split: prod.splits)

lemma foldl_pushCard_ids:
  "n0 \<le> snd st \<Longrightarrow> map id' (fst st) = [n0..snd st - 1] \<Longrightarrow>
   n0 \<le> snd (foldl pushCard st cs)
   \<and> map id' (fst (foldl pushCard st cs)) = [n0..snd (foldl pushCard st cs) - 1]"
proof (induction cs arbitrary: st)
  case Nil
  then show ?case by simp
next
  case (Cons c cs)
  obtain d n where st: "st = (d, n)"
    by (cases st)
  have "n0 \<le> snd (pushCard st c)"
    using Cons.prems(1) by (simp add: st pushCard_def)
  moreover have "map id' (fst (pushCard st c)) = [n0..snd (pushCard st c) - 1]"
    using Cons.prems by (simp add: st pushCard_def upto_rec2)
  ultimately show ?case
    using Cons.IH [of "pushCard st c"] by simp
qed

lemma buildLoop_unrolled:
  "buildLoop 0 st =
     foldl pushCard (foldl pushCard (foldl pushCard (foldl pushCard (foldl pushCard
       (foldl pushCard st BASE_CARDS) BASE_CARDS) BASE_CARDS) BASE_CARDS) BASE_CARDS) BASE_CARDS"
  by (simp add: buildLoop.simps)

lemma buildLoop_templates:
  "map BaseCard.truncate (fst (buildLoop 0 ([], n))) = concat (replicate 6 BASE_CARDS)"
  by (simp only: buildLoop_unrolled foldl_pushCard_templates)
     (simp add: eval_nat_numeral)

lemma buildLoop_ids:
  "distinct (map id' (fst (buildLoop 0 ([], n))))"
proof -
  let ?round = "\<lambda>st. foldl pushCard st BASE_CARDS"
  have start: "n \<le> snd ([] :: Mushroom list, n)" "map id' (fst ([] :: Mushroom list, n)) = [n..snd ([] :: Mushroom list, n) - 1]"
    by simp_all
  note r1 = foldl_pushCard_ids [OF start, of BASE_CARDS]
  note r2 = foldl_pushCard_ids [OF r1 [THEN conjunct1] r1 [THEN conjunct2], of BASE_CARDS]
  note r3 = foldl_pushCard_ids [OF r2 [THEN conjunct1] r2 [THEN conjunct2], of BASE_CARDS]
  note r4 = foldl_pushCard_ids [OF r3 [THEN conjunct1] r3 [THEN conjunct2], of BASE_CARDS]
  note r5 = foldl_pushCard_ids [OF r4 [THEN conjunct1] r4 [THEN conjunct2], of BASE_CARDS]
  note r6 = foldl_pushCard_ids [OF r5 [THEN conjunct1] r5 [THEN conjunct2], of BASE_CARDS]
  show ?thesis
    by (simp only: buildLoop_unrolled r6 [THEN conjunct2] distinct_upto)
qed

lemma buildLoop_length: "length (fst (buildLoop 0 ([], n))) = 36"
proof -
  have "length (map BaseCard.truncate (fst (buildLoop 0 ([], n)))) = 36"
    by (simp only: buildLoop_templates) (simp add: BASE_CARDS_def eval_nat_numeral)
  then show ?thesis by simp
qed

lemma createDeck_permutes:
  assumes "\<forall>k. 0 \<le> rnd k \<and> rnd k < 1"
  shows "mset (fst (createDeck rnd n)) = mset (fst (buildLoop 0 ([], n)))"
proof -
  obtain d m where built: "buildLoop 0 ([], n) = (d, m)"
    by (cases "buildLoop 0 ([], n)")
  with buildLoop_length [of n] have "length d - 1 < length d"
    by simp
  with assms have "mset (shuffleLoop rnd 0 (length d - 1) d) = mset d"
    by (rule shuffleLoop_mset)
  then show ?thesis
    by (simp add: createDeck_def built)
qed

lemma createDeck_ids_distinct:
  assumes "\<forall>k. 0 \<le> rnd k \<and> rnd k < 1"
  shows "distinct (map id' (fst (createDeck rnd n)))"
proof -
  have "mset (map id' (fst (createDeck rnd n))) = mset (map id' (fst (buildLoop 0 ([], n))))"
    by (simp only: mset_map createDeck_permutes [OF assms])
  from mset_eq_imp_distinct_iff [OF this] buildLoop_ids show ?thesis
    by simp
qed

lemma BASE_CARDS_distinct: "distinct BASE_CARDS"
  by (simp add: BASE_CARDS_def)

text \<open>
  C8. Whatever values \<^verbatim>\<open>Math.random()\<close> returns, the deck has exactly 36 cards;
  with the ids dropped it is, as a multiset, 6 copies of the catalog, that is 6 copies of
  each of the 6 templates; and no two of its cards have the same id.
\<close>

theorem createDeck_six_of_each:
  assumes "\<forall>k. 0 \<le> rnd k \<and> rnd k < 1"
  shows "length (fst (createDeck rnd idCounter)) = 36
    \<and> mset (map BaseCard.truncate (fst (createDeck rnd idCounter))) = repeat_mset 6 (mset BASE_CARDS)
    \<and> (\<forall>c \<in> set BASE_CARDS.
          count (mset (map BaseCard.truncate (fst (createDeck rnd idCounter)))) c = 6)
    \<and> distinct (map id' (fst (createDeck rnd idCounter)))"
proof -
  let ?deck = "fst (createDeck rnd idCounter)"
  have perm: "mset ?deck = mset (fst (buildLoop 0 ([], idCounter)))"
    using assms by (rule createDeck_permutes)
  have "length ?deck = length (fst (buildLoop 0 ([], idCounter)))"
    using perm by (rule mset_eq_length)
  then have len: "length ?deck = 36"
    by (simp only: buildLoop_length)
  have "mset (map BaseCard.truncate ?deck) = mset (concat (replicate 6 BASE_CARDS))"
    by (simp only: mset_map perm flip: buildLoop_templates [of idCounter])
  also have "\<dots> = repeat_mset 6 (mset BASE_CARDS)"
    by (simp add: eval_nat_numeral)
  finally have copies: "mset (map BaseCard.truncate ?deck) = repeat_mset 6 (mset BASE_CARDS)" .
  have "count (mset (map BaseCard.truncate ?deck)) c = 6" if "c \<in> set BASE_CARDS" for c
  proof -
    from BASE_CARDS_distinct that have "count (mset BASE_CARDS) c = 1"
      by (simp add: distinct_count_atmost_1)
    then show ?thesis
      by (simp only: copies count_repeat_mset)
  qed
  with len copies createDeck_ids_distinct [OF assms] show ?thesis
    by blast
qed

theorem createDeck_six_of_each_witness:
  "(\<forall>k. (0::rat) \<le> 1 / 2 \<and> (1 / 2 ::rat) < 1)
   \<and> map id' (fst (createDeck (\<lambda>k. 1 / 2) 0)) =
       [0, 33, 1, 25, 2, 21, 3, 29, 4, 19, 5, 23, 6, 27, 7, 31, 8, 35, 9, 20, 10, 22, 11, 24,
        12, 26, 13, 28, 14, 30, 15, 32, 16, 34, 17, 18]
   \<and> length (fst (createDeck (\<lambda>k. 1 / 2) 0)) = 36
   \<and> mset (map BaseCard.truncate (fst (createDeck (\<lambda>k. 1 / 2) 0)))
       = repeat_mset 6 (mset BASE_CARDS)
   \<and> distinct (map id' (fst (createDeck (\<lambda>k. 1 / 2) 0)))"
proof -
  have contract: "\<forall>k::nat. (0::rat) \<le> 1 / 2 \<and> (1 / 2 ::rat) < 1"
    by simp
  have ids: "map id' (fst (createDeck (\<lambda>k. 1 / 2) 0)) =
       [0, 33, 1, 25, 2, 21, 3, 29, 4, 19, 5, 23, 6, 27, 7, 31, 8, 35, 9, 20, 10, 22, 11, 24,
        12, 26, 13, 28, 14, 30, 15, 32, 16, 34, 17, 18]"
    by code_simp
  from contract ids createDeck_six_of_each [of "\<lambda>k. 1 / 2" 0, OF contract] show ?thesis
    by blast
qed

section \<open>Cards that draw\<close>

text \<open>
  The hand is filtered by id, so a play takes out of the hand every card that carries the
  played id. Ids are distinct in every state a game reaches: the deck is built with
  distinct ids, and every action keeps the cards of the state (deck, hand and habitats
  together) the same multiset, given that the ids of the hand are distinct. So in a
  game the play takes the found card out of the hand and no other.
\<close>

lemma only_card_of_id:
  "distinct (map id' cards) \<Longrightarrow> find (\<lambda>c. id' c = cardId) cards = Some found \<Longrightarrow>
   filter (\<lambda>c. id' c = cardId) cards = [found]"
proof (induction cards)
  case Nil
  then show ?case by simp
next
  case (Cons c cards)
  show ?case
  proof (cases "id' c = cardId")
    case True
    with Cons.prems have "found = c" and "\<forall>m \<in> set cards. id' m \<noteq> cardId"
      by (auto simp: image_iff)
    then show ?thesis
      using True by (simp add: filter_empty_conv)
  next
    case False
    with Cons show ?thesis by simp
  qed
qed

lemma hand_without_id:
  "length (filter (\<lambda>c. id' c = cardId) cards) = 1 \<Longrightarrow>
   length (filter (\<lambda>c. id' c \<noteq> cardId) cards) + 1 = length cards"
  using sum_length_filter_compl [of "\<lambda>c. id' c = cardId" cards] by simp

lemma take_card:
  assumes "distinct (map id' cards)" and "find (\<lambda>c. id' c = cardId) cards = Some found"
  shows "mset cards = add_mset found (mset (filter (\<lambda>c. id' c \<noteq> cardId) cards))"
proof -
  have "mset cards = filter_mset (\<lambda>c. id' c = cardId) (mset cards)
                     + filter_mset (\<lambda>c. \<not> id' c = cardId) (mset cards)"
    by (rule multiset_partition)
  then have "mset cards = mset (filter (\<lambda>c. id' c = cardId) cards)
                          + mset (filter (\<lambda>c. id' c \<noteq> cardId) cards)"
    by (simp only: mset_filter)
  with only_card_of_id [OF assms] show ?thesis by simp
qed

lemma draw_keeps_cards: "mset (cards_of (reducer t DRAW)) = mset (cards_of t)"
  by (cases "deck t") (simp_all add: cards_of_def)

lemma reducer_keeps_cards:
  assumes "distinct (map id' (hand s))"
  shows "mset (cards_of (reducer s a)) = mset (cards_of s)"
proof (cases a)
  case DRAW
  then show ?thesis by (simp only: draw_keeps_cards)
next
  case (ACTIVATE hab)
  then show ?thesis by (simp add: cards_of_def)
next
  case (PLAY cardId hab)
  show ?thesis
  proof (cases "find (\<lambda>c. id' c = cardId) (hand s)")
    case None
    with PLAY show ?thesis by simp
  next
    case (Some found)
    have taken: "mset (hand s) = add_mset found (mset (filter (\<lambda>c. id' c \<noteq> cardId) (hand s)))"
      using assms Some by (rule take_card)
    have front: "mset (deck s) = add_mset (hd (deck s)) (mset (tl (deck s)))" if "deck s \<noteq> []"
      using that by (cases "deck s") simp_all
    show ?thesis
      using PLAY Some
      by (cases hab) (auto simp add: Let_def cards_of_def taken front simp del: mset_filter)
  qed
qed

lemma reducer_keeps_ids:
  assumes "distinct (map id' (cards_of s))"
  shows "distinct (map id' (cards_of (reducer s a)))"
proof -
  from assms have "distinct (map id' (hand s))"
    by (simp add: cards_of_def)
  then have "mset (map id' (cards_of (reducer s a))) = mset (map id' (cards_of s))"
    by (simp only: mset_map reducer_keeps_cards)
  from mset_eq_imp_distinct_iff [OF this] assms show ?thesis by simp
qed

lemma replay_keeps_ids:
  "distinct (map id' (cards_of s)) \<Longrightarrow> distinct (map id' (cards_of (replay s actions)))"
proof (induction actions arbitrary: s)
  case Nil
  then show ?case by (simp add: replay_def)
next
  case (Cons a actions)
  have "replay s (a # actions) = replay (reducer s a) actions"
    by (simp add: replay_def)
  with Cons.IH [OF reducer_keeps_ids [OF Cons.prems]] show ?case by simp
qed

lemma reachable_ids_distinct:
  assumes "\<forall>k. 0 \<le> rnd k \<and> rnd k < 1"
  shows "distinct (map id' (cards_of (replay (initialState rnd n) actions)))"
proof -
  have "distinct (map id' (cards_of (initialState rnd n)))"
    using createDeck_ids_distinct [OF assms, of n] by (simp add: cards_of_def initialState_def)
  then show ?thesis by (rule replay_keeps_ids)
qed

lemma reachable_single_card:
  assumes "\<forall>k. 0 \<le> rnd k \<and> rnd k < 1"
    and "find (\<lambda>c. id' c = cardId) (hand (replay (initialState rnd n) actions)) = Some found"
  shows "length (filter (\<lambda>c. id' c = cardId) (hand (replay (initialState rnd n) actions))) = 1"
proof -
  from reachable_ids_distinct [OF assms(1), of n actions]
  have "distinct (map id' (hand (replay (initialState rnd n) actions)))"
    by (simp add: cards_of_def)
  from only_card_of_id [OF this assms(2)] show ?thesis by simp
qed

lemma reachable_hand_shrinks:
  assumes "\<forall>k. 0 \<le> rnd k \<and> rnd k < 1"
    and "s = replay (initialState rnd idCounter) actions"
    and "find (\<lambda>c. id' c = cardId) (hand s) = Some found"
  shows "length (filter (\<lambda>c. id' c \<noteq> cardId) (hand s)) + 1 = length (hand s)"
proof -
  from assms have "length (filter (\<lambda>c. id' c = cardId) (hand s)) = 1"
    by (simp add: reachable_single_card)
  then show ?thesis by (rule hand_without_id)
qed

text \<open>
  C4. In every state of a game, a valid play of a \<open>drawCard\<close> card is, in one
  transition, the play with the power pending followed by a draw. With a non-empty deck
  the hand keeps its size (one card played, one drawn) and the deck loses its front card.
\<close>

theorem play_drawCard_is_play_then_draw:
  assumes "\<forall>k. 0 \<le> rnd k \<and> rnd k < 1"
    and "s = replay (initialState rnd idCounter) actions"
    and "find (\<lambda>c. id' c = cardId) (hand s) = Some found"
    and "habitat found = h" and "cost found \<le> nutrients s" and "length (habitats s h) < 5"
    and "power' found = Some drawCard"
  shows "reducer s (PLAY cardId h) = reducer (play_pending s found h) DRAW
    \<and> (deck s \<noteq> [] \<longrightarrow>
          length (hand (reducer s (PLAY cardId h))) = length (hand s)
          \<and> hd (deck s) # deck (reducer s (PLAY cardId h)) = deck s
          \<and> length (deck (reducer s (PLAY cardId h))) + 1 = length (deck s))"
proof -
  from assms(3) have cid: "id' found = cardId"
    by (auto simp: find_Some_iff)
  have pending: "reducer s (PLAY cardId h) = reducer (play_pending s found h) DRAW"
    using assms(3-7) by (simp add: Let_def play_pending_def cid)
  have shrink: "length (filter (\<lambda>c. id' c \<noteq> cardId) (hand s)) + 1 = length (hand s)"
    using assms(1-3) by (rule reachable_hand_shrinks)
  have "length (hand (reducer (play_pending s found h) DRAW)) = length (hand s)
      \<and> hd (deck s) # deck (reducer (play_pending s found h) DRAW) = deck s
      \<and> length (deck (reducer (play_pending s found h) DRAW)) + 1 = length (deck s)"
    if "deck s \<noteq> []"
    using that shrink by (simp add: play_pending_def cid)
  then show ?thesis
    unfolding pending by blast
qed

text \<open>
  The five cards dealt at the start hold a Lion's Mane, id 2; played, it is replaced in
  the hand by the next card of the deck, id 21.
\<close>

theorem play_drawCard_is_play_then_draw_witness:
  "(\<forall>k. (0::rat) \<le> 1 / 2 \<and> (1 / 2 ::rat) < 1)
   \<and> dealt = replay (initialState (\<lambda>k. 1 / 2) 0) [DRAW, DRAW, DRAW, DRAW, DRAW]
   \<and> find (\<lambda>c. id' c = 2) (hand dealt) = Some (lionsMane 2)
   \<and> habitat (lionsMane 2) = forest
   \<and> cost (lionsMane 2) \<le> nutrients dealt
   \<and> length (habitats dealt forest) < 5
   \<and> power' (lionsMane 2) = Some drawCard
   \<and> deck dealt \<noteq> []
   \<and> map id' (hand dealt) = [0, 33, 1, 25, 2]
   \<and> map id' (hand (reducer dealt (PLAY 2 forest))) = [0, 33, 1, 25, 21]
   \<and> reducer dealt (PLAY 2 forest) = reducer (play_pending dealt (lionsMane 2) forest) DRAW
   \<and> length (hand (reducer dealt (PLAY 2 forest))) = length (hand dealt)
   \<and> length (deck (reducer dealt (PLAY 2 forest))) + 1 = length (deck dealt)"
proof -
  have contract: "\<forall>k::nat. (0::rat) \<le> 1 / 2 \<and> (1 / 2 ::rat) < 1"
    by simp
  have game: "dealt = replay (initialState (\<lambda>k. 1 / 2) 0) [DRAW, DRAW, DRAW, DRAW, DRAW]"
    by (simp only: dealt_def shuffledGame_def)
  have tests: "find (\<lambda>c. id' c = 2) (hand dealt) = Some (lionsMane 2)"
    "habitat (lionsMane 2) = forest" "cost (lionsMane 2) \<le> nutrients dealt"
    "length (habitats dealt forest) < 5" "power' (lionsMane 2) = Some drawCard"
    by code_simp+
  have more: "deck dealt \<noteq> []" "map id' (hand dealt) = [0, 33, 1, 25, 2]"
    "map id' (hand (reducer dealt (PLAY 2 forest))) = [0, 33, 1, 25, 21]"
    by code_simp+
  from play_drawCard_is_play_then_draw [OF contract game tests] more(1)
  have "reducer dealt (PLAY 2 forest) = reducer (play_pending dealt (lionsMane 2) forest) DRAW"
    and "length (hand (reducer dealt (PLAY 2 forest))) = length (hand dealt)"
    and "length (deck (reducer dealt (PLAY 2 forest))) + 1 = length (deck dealt)"
    by blast+
  with contract game tests more show ?thesis
    by blast
qed

text \<open>
  C10. In every state of a game whose deck is empty, a valid play of a \<open>drawCard\<close> card
  goes through as the play of a card without power does: cost, points and placement are
  applied, the draw that follows changes nothing, the deck stays empty, the spores stay,
  and the hand is one card shorter.
\<close>

theorem play_drawCard_empty_deck:
  assumes "\<forall>k. 0 \<le> rnd k \<and> rnd k < 1"
    and "s = replay (initialState rnd idCounter) actions"
    and "find (\<lambda>c. id' c = cardId) (hand s) = Some found"
    and "habitat found = h" and "cost found \<le> nutrients s" and "length (habitats s h) < 5"
    and "power' found = Some drawCard" and "deck s = []"
  shows "reducer s (PLAY cardId h) =
      s\<lparr>hand := filter (\<lambda>c. id' c \<noteq> cardId) (hand s),
        habitats := (habitats s)(h := habitats s h @ [found]),
        nutrients := dbl (nutrients s - cost found),
        score := dbl (score s + points found)\<rparr>
    \<and> deck (reducer s (PLAY cardId h)) = []
    \<and> length (hand (reducer s (PLAY cardId h))) + 1 = length (hand s)
    \<and> spores (reducer s (PLAY cardId h)) = spores s"
proof -
  have played: "reducer s (PLAY cardId h) =
      s\<lparr>hand := filter (\<lambda>c. id' c \<noteq> cardId) (hand s),
        habitats := (habitats s)(h := habitats s h @ [found]),
        nutrients := dbl (nutrients s - cost found),
        score := dbl (score s + points found)\<rparr>"
    using assms(3-8) by (simp add: Let_def)
  have shrink: "length (filter (\<lambda>c. id' c \<noteq> cardId) (hand s)) + 1 = length (hand s)"
    using assms(1-3) by (rule reachable_hand_shrinks)
  show ?thesis
    unfolding played using assms(8) shrink by simp
qed

text \<open>The whole deck drawn, the Lion's Mane played from a hand of 36.\<close>

theorem play_drawCard_empty_deck_witness:
  "(\<forall>k. (0::rat) \<le> 1 / 2 \<and> (1 / 2 ::rat) < 1)
   \<and> drawnOut = replay (initialState (\<lambda>k. 1 / 2) 0)
                   ([DRAW, DRAW, DRAW, DRAW, DRAW] @ replicate 31 DRAW)
   \<and> find (\<lambda>c. id' c = 2) (hand drawnOut) = Some (lionsMane 2)
   \<and> habitat (lionsMane 2) = forest
   \<and> cost (lionsMane 2) \<le> nutrients drawnOut
   \<and> length (habitats drawnOut forest) < 5
   \<and> power' (lionsMane 2) = Some drawCard
   \<and> deck drawnOut = []
   \<and> length (hand drawnOut) = 36
   \<and> length (hand (reducer drawnOut (PLAY 2 forest))) = 35
   \<and> deck (reducer drawnOut (PLAY 2 forest)) = []
   \<and> nutrients (reducer drawnOut (PLAY 2 forest)) = 6
   \<and> score (reducer drawnOut (PLAY 2 forest)) = 4
   \<and> habitats (reducer drawnOut (PLAY 2 forest)) forest = [lionsMane 2]"
proof -
  have contract: "\<forall>k::nat. (0::rat) \<le> 1 / 2 \<and> (1 / 2 ::rat) < 1"
    by simp
  have game: "drawnOut = replay (initialState (\<lambda>k. 1 / 2) 0)
                   ([DRAW, DRAW, DRAW, DRAW, DRAW] @ replicate 31 DRAW)"
    by (simp only: drawnOut_def dealt_def shuffledGame_def replay_append)
  have tests: "find (\<lambda>c. id' c = 2) (hand drawnOut) = Some (lionsMane 2)"
    "habitat (lionsMane 2) = forest" "cost (lionsMane 2) \<le> nutrients drawnOut"
    "length (habitats drawnOut forest) < 5" "power' (lionsMane 2) = Some drawCard"
    "deck drawnOut = []"
    by code_simp+
  have more: "length (hand drawnOut) = 36" "nutrients drawnOut = 8" "score drawnOut = 0"
    "habitats drawnOut forest = []"
    by code_simp+
  have card: "cost (lionsMane 2) = 2" "points (lionsMane 2) = 4"
    by (simp_all add: lionsMane_def)
  have small: "dbl 6 = 6" "dbl 4 = 4"
    by (simp_all add: dbl_exact safe_def)
  from play_drawCard_empty_deck [OF contract game tests]
  have result: "reducer drawnOut (PLAY 2 forest) =
      drawnOut\<lparr>hand := filter (\<lambda>c. id' c \<noteq> 2) (hand drawnOut),
        habitats := (habitats drawnOut)(forest := habitats drawnOut forest @ [lionsMane 2]),
        nutrients := dbl (nutrients drawnOut - cost (lionsMane 2)),
        score := dbl (score drawnOut + points (lionsMane 2))\<rparr>"
    and size: "length (hand (reducer drawnOut (PLAY 2 forest))) + 1 = length (hand drawnOut)"
    by blast+
  from size have "length (hand (reducer drawnOut (PLAY 2 forest))) = 35"
    by (simp add: more)
  moreover have "deck (reducer drawnOut (PLAY 2 forest)) = []"
    "nutrients (reducer drawnOut (PLAY 2 forest)) = 6"
    "score (reducer drawnOut (PLAY 2 forest)) = 4"
    "habitats (reducer drawnOut (PLAY 2 forest)) forest = [lionsMane 2]"
    by (simp_all add: result tests more card small)
  ultimately show ?thesis
    using contract game tests more by blast
qed

section \<open>The pointer released\<close>

text \<open>
  The loop stops at the first habitat of its list whose element is mounted and whose
  rectangle has the pointer strictly inside.
\<close>

lemma dropLoop_first:
  "dropLoop refs d c habs =
     (case find (\<lambda>hab. case refs hab of None \<Rightarrow> False
                        | Some r \<Rightarrow> left r < x d \<and> x d < right r \<and> top' r < y d \<and> y d < bottom r) habs of
        None \<Rightarrow> ([], False)
      | Some hab \<Rightarrow> ([dispatch (PLAY (id' c) hab), playSound play], True))"
  by (induction habs) (auto split: option.splits)

text \<open>
  C9. With a card being dragged, releasing the pointer tests the position against the
  rectangles in the order forest, log, soil. For the first habitat whose rectangle
  contains the position (strictly inside its four edges) exactly one Play action is
  dispatched, with the id of the dragged card and that habitat; if no rectangle contains
  it no action is dispatched. Either way the tracker is left without a carried card.
\<close>

theorem onMouseUp_first_zone:
  assumes "card' (dragging t) = Some c"
  shows "onMouseUp refs t =
      (case find (\<lambda>hab. case refs hab of None \<Rightarrow> False
                   | Some r \<Rightarrow> left r < x (dragging t) \<and> x (dragging t) < right r
                               \<and> top' r < y (dragging t) \<and> y (dragging t) < bottom r)
                 [forest, log', soil] of
         None \<Rightarrow> [playSound click]
       | Some hab \<Rightarrow> [dispatch (PLAY (id' c) hab), playSound play],
       t\<lparr>dragging := (dragging t)\<lparr>card' := None\<rparr>, dragTick := dragTick t + 1, draggingHab := None\<rparr>)
   \<and> dispatched (fst (onMouseUp refs t)) =
      (case find (\<lambda>hab. case refs hab of None \<Rightarrow> False
                   | Some r \<Rightarrow> left r < x (dragging t) \<and> x (dragging t) < right r
                               \<and> top' r < y (dragging t) \<and> y (dragging t) < bottom r)
                 [forest, log', soil] of
         None \<Rightarrow> []
       | Some hab \<Rightarrow> [PLAY (id' c) hab])
   \<and> card' (dragging (snd (onMouseUp refs t))) = None
   \<and> draggingHab (snd (onMouseUp refs t)) = None"
  using assms unfolding onMouseUp_def dropLoop_first
  by (simp split: option.splits)

theorem onMouseUp_first_zone_witness:
  "card' (dragging (snd (onMouseMove (60, 60) (snd (startDrag (10, 300) cardX idleTracker))))) = Some cardX
   \<and> onMouseUp zones (snd (onMouseMove (60, 60) (snd (startDrag (10, 300) cardX idleTracker))))
       = ([dispatch (PLAY 0 forest), playSound play],
          \<lparr>dragging = \<lparr>card' = None, x = 60, y = 60\<rparr>, dragTick = 3, draggingHab = None\<rparr>)
   \<and> card' (dragging (snd (startDrag (10, 300) cardX idleTracker))) = Some cardX
   \<and> onMouseUp zones (snd (startDrag (10, 300) cardX idleTracker))
       = ([playSound click],
          \<lparr>dragging = \<lparr>card' = None, x = 10, y = 300\<rparr>, dragTick = 2, draggingHab = None\<rparr>)"
proof -
  let ?grabbed = "snd (startDrag (10, 300) cardX idleTracker)"
  let ?moved = "snd (onMouseMove (60, 60) ?grabbed)"
  have grabbed: "?grabbed = \<lparr>dragging = \<lparr>card' = Some cardX, x = 10, y = 300\<rparr>, dragTick = 1,
                              draggingHab = Some forest\<rparr>"
    by (simp add: startDrag_def idleTracker_def cardX_def)
  have moved: "?moved = \<lparr>dragging = \<lparr>card' = Some cardX, x = 60, y = 60\<rparr>, dragTick = 2,
                          draggingHab = Some forest\<rparr>"
    by (simp add: grabbed onMouseMove_def)
  have c1: "card' (dragging ?moved) = Some cardX"
    by (simp only: moved) simp
  have c2: "card' (dragging ?grabbed) = Some cardX"
    by (simp only: grabbed) simp
  from onMouseUp_first_zone [OF c1, of zones]
  have "onMouseUp zones ?moved = ([dispatch (PLAY 0 forest), playSound play],
          \<lparr>dragging = \<lparr>card' = None, x = 60, y = 60\<rparr>, dragTick = 3, draggingHab = None\<rparr>)"
    unfolding moved by (simp add: zones_def cardX_def)
  moreover from onMouseUp_first_zone [OF c2, of zones]
  have "onMouseUp zones ?grabbed = ([playSound click],
          \<lparr>dragging = \<lparr>card' = None, x = 10, y = 300\<rparr>, dragTick = 2, draggingHab = None\<rparr>)"
    unfolding grabbed by (simp add: zones_def)
  ultimately show ?thesis
    using c1 c2 by blast
qed

end
